theory Spec2Isabelle
  imports Main "HOL-Library.Sublist"
begin

section \<open>The AppStream search of libflatpak_query.py\<close>

text \<open>
  The model follows \<^verbatim>\<open>src/libflatpak_query.py\<close>. The AppStream and Flatpak
  objects the program reads (components, releases, remotes, installations, the
  metadata file of a remote) are records holding what their getters return. Every
  \<^verbatim>\<open>AppStreamPackage\<close> the program builds is an object that a search mutates in
  place (\<^verbatim>\<open>package.match = found\<close>) while the lists of the searcher and the
  returned result list refer to it; so the packages live in a store, and the lists
  hold addresses. An exception is a value \<open>Inl e\<close>, returned together with the state
  the program is in when it is raised.

  Only the fields the search engine reads are modelled: the icon, URL, developer,
  category and description fields of a package are computed at construction by getters
  that return a value for every component, take no part in loading or matching, and are
  left out. The calls that list the remotes and the installed references of an
  installation are taken to succeed.
\<close>

subsection \<open>Strings\<close>

text \<open>
  A string is the list of the bytes of the UTF-8 form of a Python \<^verbatim>\<open>str\<close>. Two
  strs are equal when their byte lists are, and a str is empty when its list is.

  \<^verbatim>\<open>str.lower()\<close> is a method of the Python library, not of this program, and it
  works on all of Unicode. It is not defined here: every function of the program that
  calls it takes it as the parameter \<open>lower\<close>, and what is proved of the function is
  proved for every \<open>lower\<close>.

  \<open>lower_ascii\<close> maps the letters A to Z to a to z and leaves every other byte. It is
  what \<^verbatim>\<open>str.lower()\<close> returns for a str with no upper-case letter outside ASCII,
  so it stands for \<open>lower\<close> where the program is run on such strs.
\<close>

definition lower_ascii_char :: "char \<Rightarrow> char" where
  "lower_ascii_char c =
     (let n = (of_char c :: nat) in if 65 \<le> n \<and> n \<le> 90 then char_of (n + 32) else c)"

definition lower_ascii :: "string \<Rightarrow> string" where
  "lower_ascii s = map lower_ascii_char s"

text \<open>
  \<^verbatim>\<open>keyword in text\<close>: the keyword is a contiguous part of the text. For strs
  this is the same on code points and on the bytes of UTF-8, where no code point's
  bytes begin inside another's.
\<close>

definition str_in :: "string \<Rightarrow> string \<Rightarrow> bool" where
  "str_in keyword text = sublist keyword text"

subsection \<open>The objects of AppStream and Flatpak\<close>

datatype Match = NAME | ID | SUMMARY | NONE

datatype ComponentKind = DESKTOP_APP | GENERIC | RUNTIME | ADDON

record Release =
  get_version :: string

text \<open>
  \<open>get_bundle\<close> is the id of the component's bundle of kind FLATPAK, and \<open>None\<close>
  when the component has no such bundle (\<^verbatim>\<open>get_bundle\<close> then returns None).
\<close>

record Component =
  get_kind :: ComponentKind
  get_id :: string
  get_name :: string
  get_summary :: string
  get_bundle :: "string option"
  get_releases_plain :: "Release list"

record Remote =
  remote_get_name :: string
  get_disabled :: bool
  get_appstream_dir :: string

text \<open>
  \<open>list_installed_refs\<close> is \<^verbatim>\<open>list_installed_refs_by_kind(Flatpak.RefKind.APP)\<close>
  with \<^verbatim>\<open>format_ref()\<close> applied to each reference.
\<close>

record Installation =
  list_remotes :: "Remote list"
  list_installed_refs :: "string list"

text \<open>
  A file of the file system, as \<^verbatim>\<open>Metadata.parse_file\<close> sees it: a catalog with
  its components in document order, or something it cannot parse.
\<close>

datatype metadata_file = Catalog "Component list" | Corrupt

type_synonym filesystem = "string \<Rightarrow> metadata_file option"

datatype error = KeyError string | AttributeError | GLibError

subsection \<open>AppStreamPackage\<close>

record AppStreamPackage =
  component :: Component
  repo_name :: string
  flatpak_bundle :: string
  match :: Match

text \<open>
  \<^verbatim>\<open>__init__\<close>: \<^verbatim>\<open>bundle.get_id()\<close> raises AttributeError when the component
  has no flatpak bundle.
\<close>

definition AppStreamPackage_init :: "Component \<Rightarrow> Remote \<Rightarrow> error + AppStreamPackage" where
  "AppStreamPackage_init cmpt remote =
     (case get_bundle cmpt of
        None \<Rightarrow> Inl AttributeError
      | Some bundle_id \<Rightarrow>
          Inr \<lparr>component = cmpt, repo_name = remote_get_name remote,
               flatpak_bundle = bundle_id, match = NONE\<rparr>)"

definition id_prop :: "AppStreamPackage \<Rightarrow> string" where
  "id_prop self = get_id (component self)"

definition name :: "AppStreamPackage \<Rightarrow> string" where
  "name self = get_name (component self)"

definition summary :: "AppStreamPackage \<Rightarrow> string" where
  "summary self = get_summary (component self)"

text \<open>\<^verbatim>\<open>index_safe\<close> returns None for an index outside the list.\<close>

definition index_safe :: "'a list \<Rightarrow> nat \<Rightarrow> 'a option" where
  "index_safe xs i = (if i < length xs then Some (xs ! i) else None)"

definition version :: "AppStreamPackage \<Rightarrow> string option" where
  "version self =
     (let releases = get_releases_plain (component self) in
      if releases \<noteq> [] then
        (case index_safe releases 0 of
           Some release \<Rightarrow> Some (get_version release)
         | None \<Rightarrow> None)
      else None)"

definition search :: "(string \<Rightarrow> string) \<Rightarrow> AppStreamPackage \<Rightarrow> string \<Rightarrow> Match" where
  "search lower self keyword =
     (if str_in keyword (lower (name self)) then NAME
      else if str_in keyword (lower (id_prop self)) then ID
      else if str_in keyword (lower (summary self)) then SUMMARY
      else NONE)"

subsection \<open>AppstreamSearcher\<close>

text \<open>
  The state of the program: the two attributes of the searcher, \<open>remotes\<close> (a dict,
  kept as the list of its items in insertion order, each value a list of addresses
  of packages) and \<open>installed\<close>; the store of the package objects, where the address
  of an object is its index; and the calls of \<^verbatim>\<open>logger.debug\<close> made so far.
\<close>

type_synonym addr = nat

datatype log_call = Debug_file_not_found string | Debug_found addr Match

record state =
  remotes :: "(string \<times> addr list) list"
  installed :: "string list"
  heap :: "AppStreamPackage list"
  debug_log :: "log_call list"

text \<open>\<^verbatim>\<open>AppstreamSearcher.__init__\<close>, in a program that has built no package yet.\<close>

definition init :: state where
  "init = \<lparr>remotes = [], installed = [], heap = [], debug_log = []\<rparr>"

definition keys :: "('k \<times> 'v) list \<Rightarrow> 'k list" where
  "keys d = map fst d"

text \<open>\<^verbatim>\<open>d[k] = v\<close>: a key of the dict keeps its place, a new key goes last.\<close>

definition dict_set :: "('k \<times> 'v) list \<Rightarrow> 'k \<Rightarrow> 'v \<Rightarrow> ('k \<times> 'v) list" where
  "dict_set d k v =
     (if k \<in> set (keys d) then map (\<lambda>(k', v'). if k' = k then (k', v) else (k', v')) d
      else d @ [(k, v)])"

text \<open>Building an object puts it at a fresh address of the store.\<close>

definition new_object :: "AppStreamPackage \<Rightarrow> state \<Rightarrow> addr \<times> state" where
  "new_object p s = (length (heap s), s\<lparr>heap := heap s @ [p]\<rparr>)"

text \<open>
  The loop of \<^verbatim>\<open>_load_appstream_metadata\<close> over the components of the parsed
  file, with the list \<open>packages\<close> built so far.
\<close>

fun load_components ::
  "Component list \<Rightarrow> Remote \<Rightarrow> addr list \<Rightarrow> state \<Rightarrow> (error + addr list) \<times> state" where
  "load_components [] remote packages s = (Inr packages, s)"
| "load_components (cmpt # rest) remote packages s =
     (if get_kind cmpt = DESKTOP_APP then
        (case get_bundle cmpt of
           None \<Rightarrow> (Inl AttributeError, s)
         | Some bundle \<Rightarrow>
             if bundle \<notin> set (installed s) then
               (case AppStreamPackage_init cmpt remote of
                  Inl e \<Rightarrow> (Inl e, s)
                | Inr p \<Rightarrow>
                    (case new_object p s of
                       (a, s') \<Rightarrow> load_components rest remote (packages @ [a]) s'))
             else load_components rest remote packages s)
      else load_components rest remote packages s)"

definition appstream_file :: "Remote \<Rightarrow> string" where
  "appstream_file remote = get_appstream_dir remote @ ''/appstream.xml.gz''"

definition load_appstream_metadata ::
  "filesystem \<Rightarrow> Remote \<Rightarrow> state \<Rightarrow> (error + addr list) \<times> state" where
  "load_appstream_metadata fs remote s =
     (case fs (appstream_file remote) of
        Some f \<Rightarrow>
          (case f of
             Corrupt \<Rightarrow> (Inl GLibError, s)
           | Catalog components \<Rightarrow> load_components components remote [] s)
      | None \<Rightarrow>
          (Inr [], s\<lparr>debug_log := debug_log s @ [Debug_file_not_found (appstream_file remote)]\<rparr>))"

definition add_remote ::
  "filesystem \<Rightarrow> Remote \<Rightarrow> Installation \<Rightarrow> state \<Rightarrow> (error + unit) \<times> state" where
  "add_remote fs remote inst s =
     (let remote_name = remote_get_name remote;
          s1 = s\<lparr>installed := installed s @ list_installed_refs inst\<rparr>
      in if remote_name \<notin> set (keys (remotes s1)) then
           (case load_appstream_metadata fs remote s1 of
              (Inl e, s2) \<Rightarrow> (Inl e, s2)
            | (Inr packages, s2) \<Rightarrow>
                (Inr (), s2\<lparr>remotes := dict_set (remotes s2) remote_name packages\<rparr>))
         else (Inr (), s1))"

text \<open>The loop of \<^verbatim>\<open>add_installation\<close> over the remotes of the installation.\<close>

fun add_installation_loop ::
  "filesystem \<Rightarrow> Remote list \<Rightarrow> Installation \<Rightarrow> state \<Rightarrow> (error + unit) \<times> state" where
  "add_installation_loop fs [] inst s = (Inr (), s)"
| "add_installation_loop fs (remote # rest) inst s =
     (if \<not> get_disabled remote then
        (case add_remote fs remote inst s of
           (Inl e, s') \<Rightarrow> (Inl e, s')
         | (Inr u, s') \<Rightarrow> add_installation_loop fs rest inst s')
      else add_installation_loop fs rest inst s)"

definition add_installation ::
  "filesystem \<Rightarrow> Installation \<Rightarrow> state \<Rightarrow> (error + unit) \<times> state" where
  "add_installation fs inst s = add_installation_loop fs (list_remotes inst) inst s"

text \<open>
  The loop of \<^verbatim>\<open>search_flatpak_repo\<close> over the packages of one remote, with the
  list \<open>search_results\<close> built so far. A match is stored in the object and logged.
\<close>

fun search_packages ::
  "(string \<Rightarrow> string) \<Rightarrow> addr list \<Rightarrow> string \<Rightarrow> addr list \<Rightarrow> state \<Rightarrow> addr list \<times> state" where
  "search_packages lower [] keyword search_results s = (search_results, s)"
| "search_packages lower (package # rest) keyword search_results s =
     (let found = search lower (heap s ! package) keyword in
      if found \<noteq> NONE then
        search_packages lower rest keyword (search_results @ [package])
          (s\<lparr>heap := (heap s)[package := (heap s ! package)\<lparr>match := found\<rparr>],
             debug_log := debug_log s @ [Debug_found package found]\<rparr>)
      else search_packages lower rest keyword search_results s)"

text \<open>\<^verbatim>\<open>self.remotes[repo_name]\<close> raises KeyError for a name that is no key.\<close>

definition search_flatpak_repo ::
  "(string \<Rightarrow> string) \<Rightarrow> string \<Rightarrow> string \<Rightarrow> state \<Rightarrow> (error + addr list) \<times> state" where
  "search_flatpak_repo lower keyword repo s =
     (case map_of (remotes s) repo of
        None \<Rightarrow> (Inl (KeyError repo), s)
      | Some packages \<Rightarrow>
          (case search_packages lower packages keyword [] s of
             (search_results, s') \<Rightarrow> (Inr search_results, s')))"

text \<open>
  The loop of \<^verbatim>\<open>search_flatpak\<close> over \<^verbatim>\<open>self.remotes.keys()\<close>, appending the
  results of each remote to \<open>search_results\<close>.
\<close>

fun search_remotes ::
  "(string \<Rightarrow> string) \<Rightarrow> string list \<Rightarrow> string \<Rightarrow> addr list \<Rightarrow> state
     \<Rightarrow> (error + addr list) \<times> state" where
  "search_remotes lower [] keyword search_results s = (Inr search_results, s)"
| "search_remotes lower (remote_name # rest) keyword search_results s =
     (case search_flatpak_repo lower keyword remote_name s of
        (Inl e, s') \<Rightarrow> (Inl e, s')
      | (Inr results, s') \<Rightarrow>
          search_remotes lower rest keyword (search_results @ results) s')"

text \<open>
  \<^verbatim>\<open>if repo_name:\<close> holds for a string that is not empty; it fails for None,
  the default of the parameter, and for the empty string.
\<close>

definition search_flatpak ::
  "(string \<Rightarrow> string) \<Rightarrow> string \<Rightarrow> string option \<Rightarrow> state \<Rightarrow> (error + addr list) \<times> state" where
  "search_flatpak lower keyword0 repo s =
     (let keyword = lower keyword0 in
      case repo of
        Some n \<Rightarrow>
          if n \<noteq> [] then search_flatpak_repo lower keyword n s
          else search_remotes lower (keys (remotes s)) keyword [] s
      | None \<Rightarrow> search_remotes lower (keys (remotes s)) keyword [] s)"

subsection \<open>Sample data\<close>

text \<open>
  Two remotes of one installation. The catalog of flathub lists three desktop
  applications, one of them installed, and a runtime; the catalog of flathub-beta
  lists one desktop application.
  Every str of these data is ASCII, so \<^verbatim>\<open>str.lower()\<close> is \<open>lower_ascii\<close>
  on them.
\<close>

definition ex_lutris :: Component where
  "ex_lutris =
     \<lparr>get_kind = DESKTOP_APP, get_id = ''net.lutris.Lutris'', get_name = ''Lutris Games'',
      get_summary = ''gaming platform'', get_bundle = Some ''app/net.lutris.Lutris'',
      get_releases_plain = [\<lparr>get_version = ''0.5.17''\<rparr>, \<lparr>get_version = ''0.5.16''\<rparr>]\<rparr>"

definition ex_chess :: Component where
  "ex_chess =
     \<lparr>get_kind = DESKTOP_APP, get_id = ''org.gnome.Chess'', get_name = ''Chess'',
      get_summary = ''A board Game'', get_bundle = Some ''app/org.gnome.Chess'',
      get_releases_plain = []\<rparr>"

definition ex_firefox :: Component where
  "ex_firefox =
     \<lparr>get_kind = DESKTOP_APP, get_id = ''org.mozilla.firefox'', get_name = ''Firefox'',
      get_summary = ''Web browser'', get_bundle = Some ''app/org.mozilla.firefox'',
      get_releases_plain = [\<lparr>get_version = ''''\<rparr>]\<rparr>"

definition ex_platform :: Component where
  "ex_platform =
     \<lparr>get_kind = RUNTIME, get_id = ''org.gnome.Platform'', get_name = ''GNOME Platform'',
      get_summary = ''Shared libraries for games'', get_bundle = Some ''runtime/org.gnome.Platform'',
      get_releases_plain = []\<rparr>"

definition ex_mines :: Component where
  "ex_mines =
     \<lparr>get_kind = DESKTOP_APP, get_id = ''org.gnome.Mines'', get_name = ''Mines'',
      get_summary = ''Clear hidden mines, a puzzle game'', get_bundle = Some ''app/org.gnome.Mines'',
      get_releases_plain = [\<lparr>get_version = ''48.1''\<rparr>]\<rparr>"

definition ex_flathub :: Remote where
  "ex_flathub =
     \<lparr>remote_get_name = ''flathub'', get_disabled = False, get_appstream_dir = ''/as/flathub''\<rparr>"

definition ex_beta :: Remote where
  "ex_beta =
     \<lparr>remote_get_name = ''flathub-beta'', get_disabled = False, get_appstream_dir = ''/as/beta''\<rparr>"

definition ex_inst :: Installation where
  "ex_inst =
     \<lparr>list_remotes = [ex_flathub, ex_beta], list_installed_refs = [''app/org.mozilla.firefox'']\<rparr>"

definition ex_fs :: filesystem where
  "ex_fs =
     [''/as/flathub/appstream.xml.gz'' \<mapsto> Catalog [ex_lutris, ex_firefox, ex_platform, ex_chess],
      ''/as/beta/appstream.xml.gz'' \<mapsto> Catalog [ex_mines]]"

definition ex_package :: "Component \<Rightarrow> string \<Rightarrow> string \<Rightarrow> Match \<Rightarrow> AppStreamPackage" where
  "ex_package c r b m = \<lparr>component = c, repo_name = r, flatpak_bundle = b, match = m\<rparr>"

text \<open>
  The sample installation with its remotes in the other order, a file system where
  flathub-beta has no metadata file, and one where its file cannot be parsed.
\<close>

definition ex_inst_rev :: Installation where
  "ex_inst_rev =
     \<lparr>list_remotes = [ex_beta, ex_flathub], list_installed_refs = [''app/org.mozilla.firefox'']\<rparr>"

definition ex_fs_missing :: filesystem where
  "ex_fs_missing =
     [''/as/flathub/appstream.xml.gz'' \<mapsto> Catalog [ex_lutris, ex_firefox, ex_platform, ex_chess]]"

definition ex_fs_corrupt :: filesystem where
  "ex_fs_corrupt =
     [''/as/flathub/appstream.xml.gz'' \<mapsto> Catalog [ex_lutris, ex_firefox, ex_platform, ex_chess],
      ''/as/beta/appstream.xml.gz'' \<mapsto> Corrupt]"

text \<open>The state after \<^verbatim>\<open>add_installation\<close> of the sample installation.\<close>

definition ex_loaded :: state where
  "ex_loaded =
     \<lparr>remotes = [(''flathub'', [0, 1]), (''flathub-beta'', [2])],
      installed = [''app/org.mozilla.firefox'', ''app/org.mozilla.firefox''],
      heap = [ex_package ex_lutris ''flathub'' ''app/net.lutris.Lutris'' NONE,
              ex_package ex_chess ''flathub'' ''app/org.gnome.Chess'' NONE,
              ex_package ex_mines ''flathub-beta'' ''app/org.gnome.Mines'' NONE],
      debug_log = []\<rparr>"

text \<open>
  A searcher that has loaded one application whose name has a letter outside ASCII:
  the name is \<open>Stra\<close>, sharp s, \<open>e\<close>, and the sharp s is the bytes C3 9F in UTF-8.
\<close>

definition ex_strasse :: Component where
  "ex_strasse =
     \<lparr>get_kind = DESKTOP_APP, get_id = ''de.example.Maps'',
      get_name = ''Stra'' @ [CHR 0xC3, CHR 0x9F] @ ''e'',
      get_summary = ''Karten'', get_bundle = Some ''app/de.example.Maps'',
      get_releases_plain = []\<rparr>"

definition ex_maps_state :: state where
  "ex_maps_state =
     \<lparr>remotes = [(''flathub'', [0])], installed = [],
      heap = [ex_package ex_strasse ''flathub'' ''app/de.example.Maps'' NONE],
      debug_log = []\<rparr>"

subsection \<open>The invariant of the searcher, and sessions of searches\<close>

text \<open>
  What holds of every state the program reaches: the keys of the dict are distinct, no
  package object is in two lists or twice in one, and every address in the list of a
  remote is the address of an object of the store that carries the name of that remote.
\<close>

definition well_formed :: "state \<Rightarrow> bool" where
  "well_formed s =
     (distinct (keys (remotes s)) \<and> distinct (concat (map snd (remotes s)))
      \<and> (\<forall>(n, packages) \<in> set (remotes s).
            \<forall>a \<in> set packages. a < length (heap s) \<and> repo_name (heap s ! a) = n))"

text \<open>
  The packages a call of \<open>search_flatpak\<close> looks at: those of the named remote (none when
  the name is no key), or those of every remote when the name is None or empty.
\<close>

definition scanned :: "state \<Rightarrow> string option \<Rightarrow> addr list" where
  "scanned s repo =
     (case repo of
        Some n \<Rightarrow>
          if n \<noteq> [] then (case map_of (remotes s) n of Some packages \<Rightarrow> packages | None \<Rightarrow> [])
          else concat (map snd (remotes s))
      | None \<Rightarrow> concat (map snd (remotes s)))"

text \<open>
  A session: calls of \<open>search_flatpak\<close> one after the other, each on the state the
  call before left, also when it raised.
\<close>

fun run_searches ::
  "(string \<Rightarrow> string) \<Rightarrow> (string \<times> string option) list \<Rightarrow> state \<Rightarrow> state" where
  "run_searches lower [] s = s"
| "run_searches lower ((keyword, repo) # rest) s =
     run_searches lower rest (snd (search_flatpak lower keyword repo s))"

text \<open>
  The match kind of the latest call of a session that looked at the object at \<open>a\<close>
  and matched it; the kind the object had before the session when no call did.
\<close>

definition last_match ::
  "(string \<Rightarrow> string) \<Rightarrow> (string \<times> string option) list \<Rightarrow> state \<Rightarrow> addr \<Rightarrow> Match" where
  "last_match lower calls s a =
     fold (\<lambda>(keyword, repo) m.
             if a \<in> set (scanned s repo) \<and> search lower (heap s ! a) (lower keyword) \<noteq> NONE
             then search lower (heap s ! a) (lower keyword) else m)
       calls (match (heap s ! a))"

text \<open>
  The objects a load for \<open>remote\<close> builds in state \<open>s\<close>: none has a bundle that is in
  the installed list of \<open>s\<close>, each carries the name of the remote and no match yet.
\<close>

definition built :: "Remote \<Rightarrow> state \<Rightarrow> AppStreamPackage list \<Rightarrow> bool" where
  "built remote s new =
     (\<forall>p \<in> set new. flatpak_bundle p \<notin> set (installed s)
         \<and> repo_name p = remote_get_name remote \<and> match p = NONE)"

text \<open>
  The effect of looking for \<open>keyword\<close> at the objects \<open>packages\<close>: from \<open>s\<close> to \<open>s'\<close> the
  dict, the installed list and the size of the store stay, and an object of the store
  changes only when it is one of \<open>packages\<close> and matches; then it gets its match kind.
\<close>

definition marks ::
  "(string \<Rightarrow> string) \<Rightarrow> string \<Rightarrow> addr list \<Rightarrow> state \<Rightarrow> state \<Rightarrow> bool" where
  "marks lower keyword packages s s' =
     (remotes s' = remotes s \<and> installed s' = installed s
      \<and> length (heap s') = length (heap s)
      \<and> (\<forall>a < length (heap s).
            heap s' ! a =
              (if a \<in> set packages \<and> search lower (heap s ! a) keyword \<noteq> NONE
               then (heap s ! a)\<lparr>match := search lower (heap s ! a) keyword\<rparr>
               else heap s ! a)))"

section \<open>The sample state\<close>

lemma ex_loaded_reached: "add_installation ex_fs ex_inst init = (Inr (), ex_loaded)"
  by code_simp

section \<open>Loading\<close>

subsection \<open>The loop over the components\<close>

lemma load_components_step:
  "load_components (c # cs) remote packages s =
     (if get_kind c = DESKTOP_APP then
        (case get_bundle c of
           None \<Rightarrow> (Inl AttributeError, s)
         | Some b \<Rightarrow>
             if b \<notin> set (installed s) then
               load_components cs remote (packages @ [length (heap s)])
                 (s\<lparr>heap := heap s @ [\<lparr>component = c, repo_name = remote_get_name remote,
                                        flatpak_bundle = b, match = NONE\<rparr>]\<rparr>)
             else load_components cs remote packages s)
      else load_components cs remote packages s)"
  by (simp add: AppStreamPackage_init_def new_object_def split: option.splits)

lemma load_components_post:
  "load_components cs remote packages s = (r, s') \<Longrightarrow>
     remotes s' = remotes s \<and> installed s' = installed s \<and> debug_log s' = debug_log s
     \<and> (\<exists>new. heap s' = heap s @ new \<and> built remote s new)
     \<and> (\<forall>ps. r = Inr ps \<longrightarrow> ps = packages @ [length (heap s) ..< length (heap s')])"
proof (induction cs arbitrary: packages s)
  case Nil
  then show ?case by (auto simp: built_def)
next
  case (Cons c cs)
  show ?case
  proof (cases "get_kind c = DESKTOP_APP")
    case False
    with Cons.prems have "load_components cs remote packages s = (r, s')"
      by (simp only: load_components_step if_False)
    from Cons.IH [OF this] show ?thesis .
  next
    case True
    show ?thesis
    proof (cases "get_bundle c")
      case None
      with True Cons.prems have "r = Inl AttributeError" "s' = s"
        by (simp_all add: load_components_step del: load_components.simps)
      then show ?thesis by (simp add: built_def)
    next
      case (Some b)
      show ?thesis
      proof (cases "b \<in> set (installed s)")
        case True
        with \<open>get_kind c = DESKTOP_APP\<close> Some Cons.prems
        have "load_components cs remote packages s = (r, s')"
          by (simp add: load_components_step del: load_components.simps)
        from Cons.IH [OF this] show ?thesis .
      next
        case False
        let ?p = "\<lparr>component = c, repo_name = remote_get_name remote, flatpak_bundle = b, match = NONE\<rparr>"
        let ?s1 = "s\<lparr>heap := heap s @ [?p]\<rparr>"
        from False \<open>get_kind c = DESKTOP_APP\<close> Some Cons.prems
        have run: "load_components cs remote (packages @ [length (heap s)]) ?s1 = (r, s')"
          by (simp add: load_components_step del: load_components.simps)
        note ih = Cons.IH [OF run]
        from ih obtain new where new: "heap s' = heap ?s1 @ new" "built remote ?s1 new"
          by blast
        have h: "heap s' = heap s @ (?p # new)" using new(1) by simp
        have b: "built remote s (?p # new)" using new(2) False by (simp add: built_def)
        have "length (heap s) < length (heap s')" using h by simp
        then have upt: "[length (heap s) ..< length (heap s')] =
            length (heap s) # [Suc (length (heap s)) ..< length (heap s')]"
          by (rule upt_conv_Cons)
        have res: "\<forall>ps. r = Inr ps \<longrightarrow> ps = packages @ [length (heap s) ..< length (heap s')]"
          using ih upt by simp
        from ih have "remotes s' = remotes s \<and> installed s' = installed s \<and> debug_log s' = debug_log s"
          by simp
        with h b res show ?thesis by blast
      qed
    qed
  qed
qed

subsection \<open>Loading one remote\<close>

lemma load_appstream_metadata_post:
  assumes "load_appstream_metadata fs remote s = (r, s')"
  shows "remotes s' = remotes s \<and> installed s' = installed s
     \<and> (\<exists>new. heap s' = heap s @ new \<and> built remote s new)
     \<and> (\<forall>ps. r = Inr ps \<longrightarrow> ps = [length (heap s) ..< length (heap s')])"
proof (cases "fs (appstream_file remote)")
  case None
  with assms show ?thesis
    by (auto simp: load_appstream_metadata_def built_def)
next
  case (Some f)
  show ?thesis
  proof (cases f)
    case Corrupt
    with Some assms show ?thesis
      by (auto simp: load_appstream_metadata_def built_def)
  next
    case (Catalog components)
    with Some assms have "load_components components remote [] s = (r, s')"
      by (simp add: load_appstream_metadata_def)
    from load_components_post [OF this] show ?thesis by simp
  qed
qed

lemma add_remote_known:
  "remote_get_name remote \<in> set (keys (remotes s)) \<Longrightarrow>
     add_remote fs remote inst s = (Inr (), s\<lparr>installed := installed s @ list_installed_refs inst\<rparr>)"
  by (simp add: add_remote_def Let_def)

lemma add_remote_new:
  assumes "remote_get_name remote \<notin> set (keys (remotes s))"
    and "add_remote fs remote inst s = (r, s')"
  shows "installed s' = installed s @ list_installed_refs inst
     \<and> (\<exists>new. heap s' = heap s @ new \<and> built remote s' new)
     \<and> (r = Inr () \<longrightarrow>
          remotes s' = remotes s @ [(remote_get_name remote, [length (heap s) ..< length (heap s')])])
     \<and> (r \<noteq> Inr () \<longrightarrow> remotes s' = remotes s)"
proof -
  let ?s1 = "s\<lparr>installed := installed s @ list_installed_refs inst\<rparr>"
  obtain r2 s2 where load: "load_appstream_metadata fs remote ?s1 = (r2, s2)"
    by (cases "load_appstream_metadata fs remote ?s1")
  note post = load_appstream_metadata_post [OF load]
  from post obtain new where new: "heap s2 = heap s @ new" "built remote ?s1 new"
    by auto
  have inst2: "installed s2 = installed s @ list_installed_refs inst" using post by simp
  have b2: "built remote s2 new" using new(2) inst2 by (simp add: built_def)
  show ?thesis
  proof (cases r2)
    case (Inl e)
    with assms load have "r = Inl e" "s' = s2"
      by (simp_all add: add_remote_def Let_def)
    with post new b2 inst2 show ?thesis by auto
  next
    case (Inr ps)
    with post have ps: "ps = [length (heap s) ..< length (heap s2)]" by simp
    from Inr assms load have r: "r = Inr ()"
      and s': "s' = s2\<lparr>remotes := dict_set (remotes s2) (remote_get_name remote) ps\<rparr>"
      by (simp_all add: add_remote_def Let_def)
    have "remotes s2 = remotes s" using post by simp
    with assms(1) have "dict_set (remotes s2) (remote_get_name remote) ps
        = remotes s @ [(remote_get_name remote, ps)]"
      by (simp add: dict_set_def)
    with r s' ps new b2 inst2 show ?thesis by (auto simp: built_def)
  qed
qed

subsection \<open>Loading keeps the invariant\<close>

lemma well_formed_init: "well_formed init"
  by (simp add: well_formed_def init_def keys_def)

lemma well_formed_installed:
  "well_formed (s\<lparr>installed := xs\<rparr>) = well_formed s"
  by (simp add: well_formed_def)

lemma well_formed_add_remote:
  assumes wf: "well_formed s" and run: "add_remote fs remote inst s = (r, s')"
  shows "well_formed s'"
proof (cases "remote_get_name remote \<in> set (keys (remotes s))")
  case True
  with run have "s' = s\<lparr>installed := installed s @ list_installed_refs inst\<rparr>"
    by (simp add: add_remote_known)
  with wf show ?thesis by (simp add: well_formed_installed)
next
  case False
  note post = add_remote_new [OF False run]
  from post obtain new where new: "heap s' = heap s @ new" "built remote s' new"
    by blast
  have old: "a < length (heap s') \<and> repo_name (heap s' ! a) = n"
    if "(n, packages) \<in> set (remotes s)" "a \<in> set packages" for n packages a
  proof -
    from wf that have "a < length (heap s) \<and> repo_name (heap s ! a) = n"
      by (auto simp: well_formed_def)
    then show ?thesis using new(1) by (simp add: nth_append)
  qed
  show ?thesis
  proof (cases "r = Inr ()")
    case False
    with post have "remotes s' = remotes s" by simp
    with wf old show ?thesis by (auto simp: well_formed_def)
  next
    case True
    let ?n = "remote_get_name remote"
    let ?ps = "[length (heap s) ..< length (heap s')]"
    from True post have rem: "remotes s' = remotes s @ [(?n, ?ps)]" by simp
    have k: "distinct (keys (remotes s'))"
      using wf False rem by (simp add: well_formed_def keys_def)
    have below: "a < length (heap s)" if "a \<in> set (concat (map snd (remotes s)))" for a
      using wf that by (auto simp: well_formed_def)
    have "a \<notin> set ?ps" if "a \<in> set (concat (map snd (remotes s)))" for a
      using below [OF that] by simp
    then have "set (concat (map snd (remotes s))) \<inter> set ?ps = {}"
      by blast
    moreover have "distinct (concat (map snd (remotes s)))"
      using wf by (simp add: well_formed_def)
    ultimately have d: "distinct (concat (map snd (remotes s')))"
      using rem by simp
    have fresh: "a < length (heap s') \<and> repo_name (heap s' ! a) = ?n" if "a \<in> set ?ps" for a
    proof -
      from that have a: "length (heap s) \<le> a" "a < length (heap s')" by auto
      then have "heap s' ! a = new ! (a - length (heap s))" "a - length (heap s) < length new"
        using new(1) by (auto simp: nth_append)
      then have "heap s' ! a \<in> set new" by simp
      with new(2) a show ?thesis by (simp add: built_def)
    qed
    show ?thesis
      unfolding well_formed_def using k d old fresh rem by auto
  qed
qed

lemma well_formed_add_installation_loop:
  "well_formed s \<Longrightarrow> add_installation_loop fs rs inst s = (r, s') \<Longrightarrow> well_formed s'"
proof (induction rs arbitrary: s)
  case Nil
  then show ?case by simp
next
  case (Cons remote rs)
  show ?case
  proof (cases "get_disabled remote")
    case True
    with Cons show ?thesis by simp
  next
    case False
    obtain r1 s1 where step: "add_remote fs remote inst s = (r1, s1)"
      by (cases "add_remote fs remote inst s")
    have wf1: "well_formed s1" using well_formed_add_remote [OF Cons.prems(1) step] .
    show ?thesis
    proof (cases r1)
      case (Inl e)
      with False step Cons.prems(2) have "s' = s1" by simp
      with wf1 show ?thesis by simp
    next
      case (Inr u)
      with False step Cons.prems(2) have "add_installation_loop fs rs inst s1 = (r, s')" by simp
      from Cons.IH [OF wf1 this] show ?thesis .
    qed
  qed
qed

subsection \<open>The claims about loading\<close>

text \<open>
  C1: a call of \<open>add_remote\<close> first extends the installed list, and that list is the
  one in effect for the load. No package object the call builds has a bundle that is
  in it; when the call stores a list for a new remote, every address of the stored list
  is the address of an object whose bundle is not in it.
\<close>

theorem load_excludes_installed:
  assumes "add_remote fs remote inst s = (r, s')"
  shows "installed s' = installed s @ list_installed_refs inst
     \<and> (\<exists>new. heap s' = heap s @ new
           \<and> (\<forall>p \<in> set new. flatpak_bundle p \<notin> set (installed s')))
     \<and> (r = Inr () \<and> remote_get_name remote \<notin> set (keys (remotes s)) \<longrightarrow>
          (\<exists>packages. remotes s' = remotes s @ [(remote_get_name remote, packages)]
             \<and> (\<forall>a \<in> set packages. a < length (heap s')
                   \<and> flatpak_bundle (heap s' ! a) \<notin> set (installed s'))))"
proof (cases "remote_get_name remote \<in> set (keys (remotes s))")
  case True
  with assms have "s' = s\<lparr>installed := installed s @ list_installed_refs inst\<rparr>"
    by (simp add: add_remote_known)
  with True show ?thesis by simp
next
  case False
  note post = add_remote_new [OF False assms]
  from post obtain new where new: "heap s' = heap s @ new" "built remote s' new"
    by blast
  have excl: "\<forall>p \<in> set new. flatpak_bundle p \<notin> set (installed s')"
    using new(2) by (simp add: built_def)
  let ?ps = "[length (heap s) ..< length (heap s')]"
  have stored: "a < length (heap s') \<and> flatpak_bundle (heap s' ! a) \<notin> set (installed s')"
    if "a \<in> set ?ps" for a
  proof -
    from that have a: "length (heap s) \<le> a" "a < length (heap s')" by auto
    then have "heap s' ! a = new ! (a - length (heap s))" "a - length (heap s) < length new"
      using new(1) by (auto simp: nth_append)
    then have "heap s' ! a \<in> set new" by simp
    with excl a show ?thesis by simp
  qed
  have "r = Inr () \<longrightarrow>
          (\<exists>packages. remotes s' = remotes s @ [(remote_get_name remote, packages)]
             \<and> (\<forall>a \<in> set packages. a < length (heap s')
                   \<and> flatpak_bundle (heap s' ! a) \<notin> set (installed s')))"
    using post stored by blast
  with post new(1) excl show ?thesis by blast
qed

theorem load_excludes_installed_witness:
  "fst (add_remote ex_fs ex_flathub ex_inst init) = Inr ()
   \<and> installed (snd (add_remote ex_fs ex_flathub ex_inst init)) = [''app/org.mozilla.firefox'']
   \<and> get_bundle ex_firefox = Some ''app/org.mozilla.firefox''
   \<and> ''app/org.mozilla.firefox''
        \<notin> flatpak_bundle ` set (heap (snd (add_remote ex_fs ex_flathub ex_inst init)))
   \<and> remotes (snd (add_remote ex_fs ex_flathub ex_inst init)) = [(''flathub'', [0, 1])]"
proof -
  let ?out = "add_remote ex_fs ex_flathub ex_inst init"
  have run: "?out = (fst ?out, snd ?out)" by simp
  have 1: "fst ?out = Inr ()" by code_simp
  have 2: "installed (snd ?out) = [''app/org.mozilla.firefox'']" by code_simp
  have 3: "get_bundle ex_firefox = Some ''app/org.mozilla.firefox''" by code_simp
  have 4: "remotes (snd ?out) = [(''flathub'', [0, 1])]" by code_simp
  from load_excludes_installed [OF run] obtain new where
    "heap (snd ?out) = heap init @ new"
    "\<forall>p \<in> set new. flatpak_bundle p \<notin> set (installed (snd ?out))"
    by blast
  then have "\<forall>p \<in> set (heap (snd ?out)). flatpak_bundle p \<noteq> ''app/org.mozilla.firefox''"
    using 2 by (auto simp: init_def)
  then have "''app/org.mozilla.firefox'' \<notin> flatpak_bundle ` set (heap (snd ?out))"
    by auto
  with 1 2 3 4 show ?thesis by simp
qed

text \<open>
  C4 (as amended): \<open>add_remote\<close> for a remote whose name is a key of the dict parses
  nothing and leaves the dict, the package objects and the log as they are, but it still
  appends the installed references of the installation to the installed list.
\<close>

theorem add_remote_again:
  "remote_get_name remote \<in> set (keys (remotes s)) \<Longrightarrow>
     add_remote fs remote inst s
       = (Inr (), s\<lparr>installed := installed s @ list_installed_refs inst\<rparr>)"
  by (simp add: add_remote_def Let_def)

theorem add_remote_again_witness:
  "remote_get_name ex_flathub \<in> set (keys (remotes ex_loaded))
   \<and> add_remote ex_fs ex_flathub ex_inst ex_loaded
       = (Inr (), ex_loaded\<lparr>installed := [''app/org.mozilla.firefox'',
            ''app/org.mozilla.firefox'', ''app/org.mozilla.firefox'']\<rparr>)"
proof -
  have h: "remote_get_name ex_flathub \<in> set (keys (remotes ex_loaded))"
    by code_simp
  have "installed ex_loaded @ list_installed_refs ex_inst
      = [''app/org.mozilla.firefox'', ''app/org.mozilla.firefox'', ''app/org.mozilla.firefox'']"
    by code_simp
  with h add_remote_again [OF h, of ex_fs ex_inst] show ?thesis by simp
qed

text \<open>
  The claim as stated fails: the second call for the same remote changes the state of
  the searcher, and two calls leave another state than one.
\<close>

theorem add_remote_again_counterexample:
  "remote_get_name ex_flathub \<in> set (keys (remotes ex_loaded))
   \<and> snd (add_remote ex_fs ex_flathub ex_inst ex_loaded) \<noteq> ex_loaded
   \<and> snd (add_remote ex_fs ex_flathub ex_inst (snd (add_remote ex_fs ex_flathub ex_inst init)))
       \<noteq> snd (add_remote ex_fs ex_flathub ex_inst init)"
proof -
  have "remote_get_name ex_flathub \<in> set (keys (remotes ex_loaded))"
    by code_simp
  moreover have "length (installed (snd (add_remote ex_fs ex_flathub ex_inst ex_loaded))) = 3"
    "length (installed ex_loaded) = 2"
    by code_simp+
  then have "snd (add_remote ex_fs ex_flathub ex_inst ex_loaded) \<noteq> ex_loaded"
    by auto
  moreover have "length (installed (snd (add_remote ex_fs ex_flathub ex_inst
        (snd (add_remote ex_fs ex_flathub ex_inst init))))) = 2"
    "length (installed (snd (add_remote ex_fs ex_flathub ex_inst init))) = 1"
    by code_simp+
  then have "snd (add_remote ex_fs ex_flathub ex_inst (snd (add_remote ex_fs ex_flathub ex_inst init)))
       \<noteq> snd (add_remote ex_fs ex_flathub ex_inst init)"
    by auto
  ultimately show ?thesis by simp
qed

subsection \<open>The claims about a whole installation\<close>

lemma add_installation_loop_append:
  "add_installation_loop fs (xs @ ys) inst s =
     (case add_installation_loop fs xs inst s of
        (Inl e, s') \<Rightarrow> (Inl e, s')
      | (Inr u, s') \<Rightarrow> add_installation_loop fs ys inst s')"
proof (induction xs arbitrary: s)
  case Nil
  show ?case by simp
next
  case (Cons x xs)
  show ?case
  proof (cases "get_disabled x")
    case True
    then show ?thesis using Cons.IH by simp
  next
    case False
    obtain r1 s1 where step: "add_remote fs x inst s = (r1, s1)"
      by (cases "add_remote fs x inst s")
    show ?thesis
      using False step Cons.IH [of s1] by (cases r1) simp_all
  qed
qed

text \<open>
  C7: the metadata file of a remote is looked for under the fixed name
  \<open>appstream.xml.gz\<close> in its appstream directory. When no file is there, the load
  returns the empty list, raises nothing and makes one call of \<open>logger.debug\<close>;
  \<open>add_remote\<close> succeeds, and \<open>add_installation\<close> goes on with the remotes that follow.
\<close>

theorem missing_catalog_is_empty:
  assumes "fs (get_appstream_dir remote @ ''/appstream.xml.gz'') = None"
  shows "load_appstream_metadata fs remote s
       = (Inr [], s\<lparr>debug_log := debug_log s
            @ [Debug_file_not_found (get_appstream_dir remote @ ''/appstream.xml.gz'')]\<rparr>)
     \<and> fst (add_remote fs remote inst s) = Inr ()
     \<and> add_installation_loop fs (remote # rest) inst s
       = add_installation_loop fs rest inst
           (if get_disabled remote then s else snd (add_remote fs remote inst s))"
proof -
  have load: "load_appstream_metadata fs remote t
       = (Inr [], t\<lparr>debug_log := debug_log t
            @ [Debug_file_not_found (get_appstream_dir remote @ ''/appstream.xml.gz'')]\<rparr>)" for t
    using assms by (simp add: load_appstream_metadata_def appstream_file_def)
  have ok: "fst (add_remote fs remote inst s) = Inr ()"
    by (simp add: add_remote_def Let_def load)
  then have "add_installation_loop fs (remote # rest) inst s
       = add_installation_loop fs rest inst
           (if get_disabled remote then s else snd (add_remote fs remote inst s))"
    by (cases "add_remote fs remote inst s") auto
  with load ok show ?thesis by simp
qed

theorem missing_catalog_is_empty_witness:
  "ex_fs_missing (get_appstream_dir ex_beta @ ''/appstream.xml.gz'') = None
   \<and> load_appstream_metadata ex_fs_missing ex_beta init
       = (Inr [], init\<lparr>debug_log := [Debug_file_not_found ''/as/beta/appstream.xml.gz'']\<rparr>)
   \<and> fst (add_installation ex_fs_missing ex_inst_rev init) = Inr ()
   \<and> remotes (snd (add_installation ex_fs_missing ex_inst_rev init))
       = [(''flathub-beta'', []), (''flathub'', [0, 1])]"
proof -
  have h: "ex_fs_missing (get_appstream_dir ex_beta @ ''/appstream.xml.gz'') = None"
    by code_simp
  have dir: "get_appstream_dir ex_beta @ ''/appstream.xml.gz'' = ''/as/beta/appstream.xml.gz''"
    by code_simp
  have log: "debug_log init = []"
    by (simp add: init_def)
  note applied = missing_catalog_is_empty [where fs = ex_fs_missing and remote = ex_beta
      and s = init and inst = ex_inst_rev and rest = "[ex_flathub]", OF h]
  have rest: "add_installation_loop ex_fs_missing [ex_flathub] ex_inst_rev
      (snd (add_remote ex_fs_missing ex_beta ex_inst_rev init))
      = (Inr (), \<lparr>remotes = [(''flathub-beta'', []), (''flathub'', [0, 1])],
           installed = [''app/org.mozilla.firefox'', ''app/org.mozilla.firefox''],
           heap = [ex_package ex_lutris ''flathub'' ''app/net.lutris.Lutris'' NONE,
                   ex_package ex_chess ''flathub'' ''app/org.gnome.Chess'' NONE],
           debug_log = [Debug_file_not_found ''/as/beta/appstream.xml.gz'']\<rparr>)"
    by code_simp
  have en: "\<not> get_disabled ex_beta" by code_simp
  have "add_installation ex_fs_missing ex_inst_rev init
      = add_installation_loop ex_fs_missing (ex_beta # [ex_flathub]) ex_inst_rev init"
    by (simp add: add_installation_def ex_inst_rev_def)
  with applied en rest have "add_installation ex_fs_missing ex_inst_rev init
      = (Inr (), \<lparr>remotes = [(''flathub-beta'', []), (''flathub'', [0, 1])],
           installed = [''app/org.mozilla.firefox'', ''app/org.mozilla.firefox''],
           heap = [ex_package ex_lutris ''flathub'' ''app/net.lutris.Lutris'' NONE,
                   ex_package ex_chess ''flathub'' ''app/org.gnome.Chess'' NONE],
           debug_log = [Debug_file_not_found ''/as/beta/appstream.xml.gz'']\<rparr>)"
    by simp
  with h applied dir log show ?thesis by simp
qed

text \<open>
  C3 (as amended): nothing catches the error of a metadata file that cannot be parsed.
  \<open>add_installation\<close> raises it at the first enabled remote, not yet in the dict,
  whose file is corrupt: the remotes loaded before it stay in the dict, the failing
  remote gets no entry, and the remotes after it are not looked at by that call.
\<close>

theorem parse_failure_aborts:
  assumes "add_installation_loop fs before inst s0 = (Inr (), s)"
    and "\<not> get_disabled remote"
    and "fs (appstream_file remote) = Some Corrupt"
    and "remote_get_name remote \<notin> set (keys (remotes s))"
  shows "add_remote fs remote inst s
       = (Inl GLibError, s\<lparr>installed := installed s @ list_installed_refs inst\<rparr>)
     \<and> add_installation_loop fs (before @ remote # after) inst s0
       = (Inl GLibError, s\<lparr>installed := installed s @ list_installed_refs inst\<rparr>)"
proof -
  have one: "add_remote fs remote inst s
       = (Inl GLibError, s\<lparr>installed := installed s @ list_installed_refs inst\<rparr>)"
    using assms(3,4) by (simp add: add_remote_def Let_def load_appstream_metadata_def)
  then have "add_installation_loop fs (remote # after) inst s
       = (Inl GLibError, s\<lparr>installed := installed s @ list_installed_refs inst\<rparr>)"
    using assms(2) by simp
  with assms(1) one show ?thesis
    by (simp add: add_installation_loop_append)
qed

theorem parse_failure_aborts_witness:
  "add_installation_loop ex_fs_corrupt [ex_flathub] ex_inst init
       = (Inr (), ex_loaded\<lparr>remotes := [(''flathub'', [0, 1])],
            installed := [''app/org.mozilla.firefox''],
            heap := take 2 (heap ex_loaded)\<rparr>)
   \<and> add_installation ex_fs_corrupt ex_inst init
       = (Inl GLibError, ex_loaded\<lparr>remotes := [(''flathub'', [0, 1])],
            heap := take 2 (heap ex_loaded)\<rparr>)"
proof -
  let ?s = "ex_loaded\<lparr>remotes := [(''flathub'', [0, 1])],
            installed := [''app/org.mozilla.firefox''], heap := take 2 (heap ex_loaded)\<rparr>"
  have 1: "add_installation_loop ex_fs_corrupt [ex_flathub] ex_inst init = (Inr (), ?s)"
    by code_simp
  have 2: "\<not> get_disabled ex_beta" by code_simp
  have 3: "ex_fs_corrupt (appstream_file ex_beta) = Some Corrupt" by code_simp
  have 4: "remote_get_name ex_beta \<notin> set (keys (remotes ?s))" by code_simp
  have 5: "?s\<lparr>installed := installed ?s @ list_installed_refs ex_inst\<rparr>
      = ex_loaded\<lparr>remotes := [(''flathub'', [0, 1])], heap := take 2 (heap ex_loaded)\<rparr>"
    by code_simp
  have "add_installation ex_fs_corrupt ex_inst init
      = add_installation_loop ex_fs_corrupt ([ex_flathub] @ ex_beta # []) ex_inst init"
    by (simp add: add_installation_def ex_inst_def)
  with parse_failure_aborts [OF 1 2 3 4, of "[]"] 1 5 show ?thesis by simp
qed

text \<open>
  The claim as stated fails: with the corrupt file at the first remote of the
  installation, \<open>add_installation\<close> raises and the second remote, enabled and with a
  catalog that parses, is not loaded.
\<close>

theorem parse_failure_aborts_counterexample:
  "list_remotes ex_inst_rev = [ex_beta, ex_flathub]
   \<and> ex_fs_corrupt (appstream_file ex_beta) = Some Corrupt
   \<and> \<not> get_disabled ex_flathub
   \<and> ex_fs_corrupt (appstream_file ex_flathub)
       = Some (Catalog [ex_lutris, ex_firefox, ex_platform, ex_chess])
   \<and> add_installation ex_fs_corrupt ex_inst_rev init
       = (Inl GLibError, init\<lparr>installed := [''app/org.mozilla.firefox'']\<rparr>)
   \<and> map_of (remotes (snd (add_installation ex_fs_corrupt ex_inst_rev init))) ''flathub'' = None"
  by code_simp

section \<open>Matching one package\<close>

text \<open>
  C2: \<open>search\<close> returns NAME when the keyword is a contiguous part of the lower-cased
  name; otherwise ID when it is a part of the lower-cased id; otherwise SUMMARY when it
  is a part of the lower-cased summary; otherwise NONE. Only the first criterion that
  matches, in the order NAME, ID, SUMMARY, is reported.
\<close>

theorem search_priority:
  "search lower p keyword =
     (if (\<exists>pre post. lower (get_name (component p)) = pre @ keyword @ post) then NAME
      else if (\<exists>pre post. lower (get_id (component p)) = pre @ keyword @ post) then ID
      else if (\<exists>pre post. lower (get_summary (component p)) = pre @ keyword @ post) then SUMMARY
      else NONE)"
  by (simp add: search_def str_in_def sublist_def name_def id_prop_def summary_def)

text \<open>
  The example of the specification: the name wins for \<open>lutris\<close> though the id matches
  as well, \<open>gaming\<close> is found in the summary only and \<open>net.\<close> in the id only.
\<close>

theorem search_priority_witness:
  "search lower_ascii (ex_package ex_lutris ''flathub'' ''app/net.lutris.Lutris'' NONE) ''lutris'' = NAME
   \<and> (\<exists>pre post. lower_ascii (get_id ex_lutris) = pre @ ''lutris'' @ post)
   \<and> search lower_ascii (ex_package ex_lutris ''flathub'' ''app/net.lutris.Lutris'' NONE) ''gaming'' = SUMMARY
   \<and> search lower_ascii (ex_package ex_lutris ''flathub'' ''app/net.lutris.Lutris'' NONE) ''net.'' = ID
   \<and> search lower_ascii (ex_package ex_lutris ''flathub'' ''app/net.lutris.Lutris'' NONE) ''chess'' = NONE"
proof -
  let ?p = "ex_package ex_lutris ''flathub'' ''app/net.lutris.Lutris'' NONE"
  have id_match: "lower_ascii (get_id ex_lutris) = ''net.'' @ ''lutris'' @ ''.lutris''"
    by code_simp
  have name_match: "lower_ascii (get_name (component ?p)) = [] @ ''lutris'' @ '' games''"
    by code_simp
  have "search lower_ascii ?p ''lutris'' = NAME"
    using search_priority [of lower_ascii ?p "''lutris''"] name_match by metis
  moreover have "\<exists>pre post. lower_ascii (get_id ex_lutris) = pre @ ''lutris'' @ post"
    using id_match by blast
  moreover have "search lower_ascii ?p ''gaming'' = SUMMARY" "search lower_ascii ?p ''net.'' = ID"
    "search lower_ascii ?p ''chess'' = NONE"
    by code_simp+
  ultimately show ?thesis by simp
qed

text \<open>
  C9: the version of a package is the version of the release at index 0 when the
  release list is not empty, and the absent value None when it is empty. None differs
  from every version string, the empty one included: the version is absent exactly
  when the component has no release.
\<close>

theorem version_first_release:
  "version p =
     (case get_releases_plain (component p) of
        [] \<Rightarrow> None
      | release # others \<Rightarrow> Some (get_version release))
   \<and> (version p = None) = (get_releases_plain (component p) = [])"
  by (cases "get_releases_plain (component p)") (simp_all add: version_def index_safe_def)

theorem version_first_release_witness:
  "version (ex_package ex_chess ''flathub'' ''app/org.gnome.Chess'' NONE) = None
   \<and> version (ex_package ex_firefox ''flathub'' ''app/org.mozilla.firefox'' NONE) = Some ''''
   \<and> version (ex_package ex_lutris ''flathub'' ''app/net.lutris.Lutris'' NONE) = Some ''0.5.17''"
  using version_first_release [of "ex_package ex_chess ''flathub'' ''app/org.gnome.Chess'' NONE"]
    version_first_release [of "ex_package ex_firefox ''flathub'' ''app/org.mozilla.firefox'' NONE"]
    version_first_release [of "ex_package ex_lutris ''flathub'' ''app/net.lutris.Lutris'' NONE"]
  by (simp add: ex_package_def ex_chess_def ex_firefox_def ex_lutris_def)

section \<open>Searching\<close>

lemma lower_ascii_char_idem: "lower_ascii_char (lower_ascii_char c) = lower_ascii_char c"
  by (simp add: lower_ascii_char_def Let_def)

lemma lower_ascii_idem: "lower_ascii (lower_ascii t) = lower_ascii t"
  by (simp add: lower_ascii_def lower_ascii_char_idem)

lemma search_flatpak_lower_cong:
  "lower k1 = lower k2 \<Longrightarrow> search_flatpak lower k1 repo s = search_flatpak lower k2 repo s"
  by (simp add: search_flatpak_def)

text \<open>
  C8 (as amended): \<open>search_flatpak\<close> lower-cases the keyword once, with
  \<^verbatim>\<open>str.lower()\<close>, before it is matched against the lower-cased fields. So two
  keywords that \<^verbatim>\<open>str.lower()\<close> maps to the same str give the same result list and
  leave the same state. Two keywords that differ in the case of ASCII letters only
  (they are equal once their ASCII letters are lower-cased) are such a pair, for
  \<^verbatim>\<open>str.lower()\<close> returns the same for a str and for that str with its ASCII
  letters lower-cased; this is the hypothesis on \<open>lower\<close>.
\<close>

theorem search_flatpak_case_insensitive:
  "(lower k1 = lower k2 \<longrightarrow>
      search_flatpak lower k1 repo s = search_flatpak lower k2 repo s)
   \<and> ((\<forall>t. lower (lower_ascii t) = lower t) \<and> lower_ascii k1 = lower_ascii k2 \<longrightarrow>
      search_flatpak lower k1 repo s = search_flatpak lower k2 repo s)"
proof -
  have "lower k1 = lower k2"
    if absorb: "\<forall>t. lower (lower_ascii t) = lower t" and same: "lower_ascii k1 = lower_ascii k2"
  proof -
    have "lower k1 = lower (lower_ascii k1)" using absorb by simp
    also have "\<dots> = lower (lower_ascii k2)" using same by simp
    also have "\<dots> = lower k2" using absorb by simp
    finally show ?thesis .
  qed
  then show ?thesis
    using search_flatpak_lower_cong by blast
qed

theorem search_flatpak_case_insensitive_witness:
  "(\<forall>t. lower_ascii (lower_ascii t) = lower_ascii t)
   \<and> ''LUTRIS'' \<noteq> ''lutris'' \<and> lower_ascii ''LUTRIS'' = lower_ascii ''lutris''
   \<and> search_flatpak lower_ascii ''LUTRIS'' None ex_loaded
       = search_flatpak lower_ascii ''lutris'' None ex_loaded
   \<and> fst (search_flatpak lower_ascii ''LUTRIS'' None ex_loaded) = Inr [0]"
proof -
  have absorb: "\<forall>t. lower_ascii (lower_ascii t) = lower_ascii t"
    by (simp add: lower_ascii_idem)
  have same: "lower_ascii ''LUTRIS'' = lower_ascii ''lutris''"
    by code_simp
  have found: "fst (search_flatpak lower_ascii ''LUTRIS'' None ex_loaded) = Inr [0]"
    by code_simp
  from search_flatpak_case_insensitive [of lower_ascii "''LUTRIS''" "''lutris''" None ex_loaded]
    absorb same
  have "search_flatpak lower_ascii ''LUTRIS'' None ex_loaded
      = search_flatpak lower_ascii ''lutris'' None ex_loaded"
    by blast
  with absorb same found show ?thesis by simp
qed

text \<open>
  The claim as stated fails, since not every case variant has the same lower-cased
  form: \<^verbatim>\<open>str.lower()\<close> is no case fold. The upper-case form of the keyword
  \<open>stra\<close>, sharp s, \<open>e\<close> is \<open>STRASSE\<close>. Neither has an upper-case letter outside
  ASCII, nor has a field of the sample application, so \<open>lower_ascii\<close> is
  \<^verbatim>\<open>str.lower()\<close> on them. The first keyword finds the application named with
  the sharp s, the second finds nothing.
\<close>

theorem search_flatpak_case_insensitive_counterexample:
  "lower_ascii ''STRASSE'' = ''strasse''
   \<and> lower_ascii (''stra'' @ [CHR 0xC3, CHR 0x9F] @ ''e'') = ''stra'' @ [CHR 0xC3, CHR 0x9F] @ ''e''
   \<and> lower_ascii (get_name ex_strasse) = ''stra'' @ [CHR 0xC3, CHR 0x9F] @ ''e''
   \<and> fst (search_flatpak lower_ascii (''stra'' @ [CHR 0xC3, CHR 0x9F] @ ''e'') None ex_maps_state)
       = Inr [0]
   \<and> fst (search_flatpak lower_ascii ''STRASSE'' None ex_maps_state) = Inr []"
  by code_simp

subsection \<open>The loop over the packages of one remote\<close>

lemma search_match_update [simp]: "search lower (p\<lparr>match := m\<rparr>) keyword = search lower p keyword"
  by (simp add: search_def name_def id_prop_def summary_def)

lemma marks_refl: "marks lower keyword [] s s"
  by (simp add: marks_def)

lemma marks_search:
  "marks lower keyword packages s s' \<Longrightarrow> a < length (heap s) \<Longrightarrow>
     search lower (heap s' ! a) keyword = search lower (heap s ! a) keyword"
  by (simp add: marks_def)

lemma marks_filter:
  assumes "marks lower keyword packages s s'" and "\<forall>a \<in> set xs. a < length (heap s)"
  shows "filter (\<lambda>a. search lower (heap s' ! a) keyword \<noteq> NONE) xs
       = filter (\<lambda>a. search lower (heap s ! a) keyword \<noteq> NONE) xs"
  using assms by (intro filter_cong) (simp_all add: marks_search)

lemma marks_trans:
  assumes 1: "marks lower keyword xs s s1" and 2: "marks lower keyword ys s1 s2"
  shows "marks lower keyword (xs @ ys) s s2"
proof -
  have len: "length (heap s1) = length (heap s)" "length (heap s2) = length (heap s)"
    using 1 2 by (simp_all add: marks_def)
  have "heap s2 ! a =
          (if a \<in> set (xs @ ys) \<and> search lower (heap s ! a) keyword \<noteq> NONE
           then (heap s ! a)\<lparr>match := search lower (heap s ! a) keyword\<rparr>
           else heap s ! a)" if a: "a < length (heap s)" for a
  proof -
    have h1: "heap s1 ! a =
          (if a \<in> set xs \<and> search lower (heap s ! a) keyword \<noteq> NONE
           then (heap s ! a)\<lparr>match := search lower (heap s ! a) keyword\<rparr>
           else heap s ! a)"
      using 1 a by (simp add: marks_def)
    have h2: "heap s2 ! a =
          (if a \<in> set ys \<and> search lower (heap s1 ! a) keyword \<noteq> NONE
           then (heap s1 ! a)\<lparr>match := search lower (heap s1 ! a) keyword\<rparr>
           else heap s1 ! a)"
      using 2 a len by (simp add: marks_def)
    have same: "search lower (heap s1 ! a) keyword = search lower (heap s ! a) keyword"
      using marks_search [OF 1 a] .
    show ?thesis
      unfolding h2 same unfolding h1 by auto
  qed
  with 1 2 len show ?thesis by (simp add: marks_def)
qed

lemma marks_one:
  assumes "a < length (heap s)" and "search lower (heap s ! a) keyword \<noteq> NONE"
  shows "marks lower keyword [a]
     s (s\<lparr>heap := (heap s)[a := (heap s ! a)\<lparr>match := search lower (heap s ! a) keyword\<rparr>],
          debug_log := l\<rparr>)"
  using assms by (auto simp: marks_def nth_list_update)

lemma marks_skip:
  assumes "search lower (heap s ! a) keyword = NONE"
  shows "marks lower keyword [a] s s"
  using assms by (auto simp: marks_def)

lemma search_packages_post:
  "\<forall>a \<in> set packages. a < length (heap s) \<Longrightarrow>
   search_packages lower packages keyword search_results s = (results, s') \<Longrightarrow>
     results = search_results @ filter (\<lambda>a. search lower (heap s ! a) keyword \<noteq> NONE) packages
     \<and> marks lower keyword packages s s'"
proof (induction packages arbitrary: search_results s)
  case Nil
  then show ?case by (simp add: marks_refl)
next
  case (Cons a rest)
  let ?found = "search lower (heap s ! a) keyword"
  have a: "a < length (heap s)" and rest: "\<forall>b \<in> set rest. b < length (heap s)"
    using Cons.prems(1) by simp_all
  show ?case
  proof (cases "?found = NONE")
    case True
    with Cons.prems(2) have run: "search_packages lower rest keyword search_results s = (results, s')"
      by simp
    from Cons.IH [OF rest run] have ih: "results =
        search_results @ filter (\<lambda>a. search lower (heap s ! a) keyword \<noteq> NONE) rest"
      "marks lower keyword rest s s'"
      by simp_all
    from marks_trans [OF marks_skip [OF True] ih(2)] have "marks lower keyword (a # rest) s s'"
      by simp
    with ih(1) True show ?thesis by simp
  next
    case False
    let ?s1 = "s\<lparr>heap := (heap s)[a := (heap s ! a)\<lparr>match := ?found\<rparr>],
                 debug_log := debug_log s @ [Debug_found a ?found]\<rparr>"
    from False Cons.prems(2)
    have run: "search_packages lower rest keyword (search_results @ [a]) ?s1 = (results, s')"
      by (simp add: Let_def)
    have m1: "marks lower keyword [a] s ?s1"
      using marks_one [OF a False] .
    have rest1: "\<forall>b \<in> set rest. b < length (heap ?s1)"
      using rest by simp
    from Cons.IH [OF rest1 run] have ih: "results =
        (search_results @ [a]) @ filter (\<lambda>a. search lower (heap ?s1 ! a) keyword \<noteq> NONE) rest"
      "marks lower keyword rest ?s1 s'"
      by simp_all
    have "filter (\<lambda>a. search lower (heap ?s1 ! a) keyword \<noteq> NONE) rest
        = filter (\<lambda>a. search lower (heap s ! a) keyword \<noteq> NONE) rest"
      using marks_filter [OF m1 rest] .
    with ih(1) False have "results =
        search_results @ filter (\<lambda>a. search lower (heap s ! a) keyword \<noteq> NONE) (a # rest)"
      by simp
    moreover from marks_trans [OF m1 ih(2)] have "marks lower keyword (a # rest) s s'"
      by simp
    ultimately show ?thesis by simp
  qed
qed

subsection \<open>Searching one remote, and all of them\<close>

lemma well_formed_marks:
  assumes wf: "well_formed s" and m: "marks lower keyword packages s s'"
  shows "well_formed s'"
proof -
  have "a < length (heap s') \<and> repo_name (heap s' ! a) = n"
    if "(n, ps) \<in> set (remotes s)" "a \<in> set ps" for n ps a
  proof -
    from wf that have a: "a < length (heap s)" "repo_name (heap s ! a) = n"
      by (auto simp: well_formed_def)
    with m show ?thesis by (simp add: marks_def)
  qed
  with wf m show ?thesis by (auto simp: well_formed_def marks_def)
qed

lemma well_formed_lookup:
  assumes "well_formed s" and "map_of (remotes s) n = Some ps"
  shows "\<forall>a \<in> set ps. a < length (heap s) \<and> repo_name (heap s ! a) = n"
proof -
  from assms(2) have "(n, ps) \<in> set (remotes s)" by (rule map_of_SomeD)
  with assms(1) show ?thesis by (auto simp: well_formed_def)
qed

lemma search_flatpak_repo_unknown:
  "n \<notin> set (keys (remotes s)) \<Longrightarrow> search_flatpak_repo lower keyword n s = (Inl (KeyError n), s)"
proof -
  assume "n \<notin> set (keys (remotes s))"
  then have "map_of (remotes s) n = None"
    by (simp add: keys_def map_of_eq_None_iff)
  then show ?thesis by (simp add: search_flatpak_repo_def)
qed

lemma search_flatpak_repo_known:
  assumes wf: "well_formed s" and look: "map_of (remotes s) n = Some ps"
    and run: "search_flatpak_repo lower keyword n s = (r, s')"
  shows "r = Inr (filter (\<lambda>a. search lower (heap s ! a) keyword \<noteq> NONE) ps)
     \<and> marks lower keyword ps s s'"
proof -
  obtain res s1 where loop: "search_packages lower ps keyword [] s = (res, s1)"
    by (cases "search_packages lower ps keyword [] s")
  have valid: "\<forall>a \<in> set ps. a < length (heap s)"
    using well_formed_lookup [OF wf look] by simp
  from search_packages_post [OF valid loop] loop look run show ?thesis
    by (simp add: search_flatpak_repo_def)
qed

lemma search_remotes_post:
  assumes "well_formed s" and "set ks \<subseteq> set (keys (remotes s))"
    and "search_remotes lower ks keyword search_results s = (r, s')"
  shows "r = Inr (search_results @ concat (map (\<lambda>k.
            filter (\<lambda>a. search lower (heap s ! a) keyword \<noteq> NONE) (the (map_of (remotes s) k))) ks))
     \<and> marks lower keyword (concat (map (\<lambda>k. the (map_of (remotes s) k)) ks)) s s'"
  using assms
proof (induction ks arbitrary: search_results s)
  case Nil
  then show ?case by (simp add: marks_refl)
next
  case (Cons k ks)
  from Cons.prems(2) have "k \<in> fst ` set (remotes s)" by (simp add: keys_def)
  then obtain ps where look: "map_of (remotes s) k = Some ps"
    by (metis map_of_eq_None_iff not_Some_eq)
  obtain r1 s1 where one: "search_flatpak_repo lower keyword k s = (r1, s1)"
    by (cases "search_flatpak_repo lower keyword k s")
  let ?P = "\<lambda>t a. search lower (heap t ! a) keyword \<noteq> NONE"
  from search_flatpak_repo_known [OF Cons.prems(1) look one]
  have r1: "r1 = Inr (filter (?P s) ps)" and m1: "marks lower keyword ps s s1"
    by simp_all
  have wf1: "well_formed s1" using well_formed_marks [OF Cons.prems(1) m1] .
  have rem1: "remotes s1 = remotes s" using m1 by (simp add: marks_def)
  have ks1: "set ks \<subseteq> set (keys (remotes s1))" using Cons.prems(2) rem1 by simp
  from Cons.prems(3) one r1
  have rest: "search_remotes lower ks keyword (search_results @ filter (?P s) ps) s1 = (r, s')"
    by simp
  note ih = Cons.IH [OF wf1 ks1 rest]
  have same: "filter (?P s1) (the (map_of (remotes s) k')) = filter (?P s) (the (map_of (remotes s) k'))"
    if "k' \<in> set ks" for k'
  proof -
    from that Cons.prems(2) have "k' \<in> fst ` set (remotes s)" by (auto simp: keys_def)
    then obtain ps' where l': "map_of (remotes s) k' = Some ps'"
      by (metis map_of_eq_None_iff not_Some_eq)
    have "\<forall>a \<in> set ps'. a < length (heap s)"
      using well_formed_lookup [OF Cons.prems(1) l'] by simp
    from marks_filter [OF m1 this] l' show ?thesis by simp
  qed
  have "map (\<lambda>k. filter (?P s1) (the (map_of (remotes s1) k))) ks
      = map (\<lambda>k. filter (?P s) (the (map_of (remotes s) k))) ks"
    using same rem1 by simp
  with ih look have res: "r = Inr (search_results @ concat (map (\<lambda>k.
            filter (?P s) (the (map_of (remotes s) k))) (k # ks)))"
    by simp
  from ih rem1 have "marks lower keyword (concat (map (\<lambda>k. the (map_of (remotes s) k)) ks)) s1 s'"
    by simp
  from marks_trans [OF m1 this] look
  have "marks lower keyword (concat (map (\<lambda>k. the (map_of (remotes s) k)) (k # ks))) s s'"
    by simp
  with res show ?case by simp
qed

text \<open>The lists of a dict with distinct keys, looked up key by key.\<close>

lemma lookup_all_keys:
  "distinct (map fst d) \<Longrightarrow> map (\<lambda>k. the (map_of d k)) (map fst d) = map snd d"
proof (induction d)
  case Nil
  show ?case by simp
next
  case (Cons x d)
  obtain k v where x: "x = (k, v)" by (cases x)
  from Cons.prems x have k: "k \<notin> fst ` set d" and dist: "distinct (map fst d)" by auto
  have "map (\<lambda>k'. the (map_of (x # d) k')) (map fst d) = map (\<lambda>k'. the (map_of d k')) (map fst d)"
    using k x by (intro map_cong) auto
  with Cons.IH [OF dist] x show ?case by simp
qed

subsection \<open>What a call of the public search does\<close>

lemma lookup_keys:
  assumes "well_formed s"
  shows "map (\<lambda>k. the (map_of (remotes s) k)) (keys (remotes s)) = map snd (remotes s)"
proof -
  from assms have "distinct (map fst (remotes s))"
    by (simp add: well_formed_def keys_def)
  from lookup_all_keys [OF this] show ?thesis
    unfolding keys_def .
qed

lemma search_all_post:
  assumes wf: "well_formed s"
    and run: "search_remotes lower (keys (remotes s)) keyword [] s = (r, s')"
  shows "r = Inr (filter (\<lambda>a. search lower (heap s ! a) keyword \<noteq> NONE) (concat (map snd (remotes s))))
     \<and> marks lower keyword (concat (map snd (remotes s))) s s'"
proof -
  let ?P = "\<lambda>a. search lower (heap s ! a) keyword \<noteq> NONE"
  let ?look = "\<lambda>k. the (map_of (remotes s) k)"
  note post = search_remotes_post [OF wf subset_refl run]
  have "map (\<lambda>k. filter ?P (?look k)) (keys (remotes s))
      = map (filter ?P) (map ?look (keys (remotes s)))"
    by simp
  also have "\<dots> = map (filter ?P) (map snd (remotes s))"
    by (simp only: lookup_keys [OF wf])
  finally have "concat (map (\<lambda>k. filter ?P (?look k)) (keys (remotes s)))
      = filter ?P (concat (map snd (remotes s)))"
    by (simp only: filter_concat)
  moreover have "concat (map ?look (keys (remotes s))) = concat (map snd (remotes s))"
    by (simp only: lookup_keys [OF wf])
  ultimately show ?thesis using post by simp
qed

lemma search_flatpak_post:
  assumes wf: "well_formed s" and run: "search_flatpak lower keyword repo s = (r, s')"
  shows "marks lower (lower keyword) (scanned s repo) s s'
     \<and> (r = Inr (filter (\<lambda>a. search lower (heap s ! a) (lower keyword) \<noteq> NONE) (scanned s repo))
        \<or> (\<exists>n. repo = Some n \<and> n \<noteq> [] \<and> n \<notin> set (keys (remotes s))
              \<and> r = Inl (KeyError n) \<and> s' = s))"
proof (cases "\<exists>n. repo = Some n \<and> n \<noteq> []")
  case False
  then have sc: "scanned s repo = concat (map snd (remotes s))"
    by (cases repo) (auto simp: scanned_def)
  from False run have "search_remotes lower (keys (remotes s)) (lower keyword) [] s = (r, s')"
    by (cases repo) (auto simp: search_flatpak_def Let_def)
  from search_all_post [OF wf this] sc show ?thesis by simp
next
  case True
  then obtain n where n: "repo = Some n" "n \<noteq> []" by blast
  with run have one: "search_flatpak_repo lower (lower keyword) n s = (r, s')"
    by (simp add: search_flatpak_def Let_def)
  show ?thesis
  proof (cases "map_of (remotes s) n")
    case None
    then have "n \<notin> set (keys (remotes s))"
      by (simp add: keys_def map_of_eq_None_iff)
    moreover from this one have "r = Inl (KeyError n)" "s' = s"
      by (simp_all add: search_flatpak_repo_unknown)
    moreover have "scanned s repo = []"
      using n None by (simp add: scanned_def)
    ultimately show ?thesis using n by (simp add: marks_refl)
  next
    case (Some ps)
    then have "scanned s repo = ps"
      using n by (simp add: scanned_def)
    with search_flatpak_repo_known [OF wf Some one] show ?thesis by simp
  qed
qed

lemma well_formed_search_flatpak:
  "well_formed s \<Longrightarrow> search_flatpak lower keyword repo s = (r, s') \<Longrightarrow> well_formed s'"
  using search_flatpak_post well_formed_marks by blast

lemma well_formed_ex_loaded: "well_formed ex_loaded"
proof -
  have "add_installation_loop ex_fs (list_remotes ex_inst) ex_inst init = (Inr (), ex_loaded)"
    using ex_loaded_reached by (simp add: add_installation_def)
  from well_formed_add_installation_loop [OF well_formed_init this] show ?thesis .
qed

subsection \<open>The claims about the scope of a search\<close>

text \<open>
  C5 (as amended): a search with a repository name that is not empty and is no key of
  the dict raises KeyError; it returns no result list and leaves the state as it was.
  The empty string counts as no repository name.
\<close>

theorem unknown_repository_raises:
  "n \<noteq> [] \<Longrightarrow> n \<notin> set (keys (remotes s)) \<Longrightarrow>
     search_flatpak lower keyword (Some n) s = (Inl (KeyError n), s)"
  by (simp add: search_flatpak_def Let_def search_flatpak_repo_unknown)

theorem unknown_repository_raises_witness:
  "''nope'' \<noteq> [] \<and> ''nope'' \<notin> set (keys (remotes ex_loaded))
   \<and> search_flatpak lower_ascii ''game'' (Some ''nope'') ex_loaded = (Inl (KeyError ''nope''), ex_loaded)"
proof -
  have 1: "''nope'' \<noteq> []" by simp
  have 2: "''nope'' \<notin> set (keys (remotes ex_loaded))" by code_simp
  from unknown_repository_raises [OF 1 2] 2 show ?thesis by simp
qed

text \<open>
  The claim as stated fails for the empty string: it was never added, and the search
  raises nothing; it returns the matches of all remotes, and the empty list when
  there is none.
\<close>

theorem unknown_repository_raises_counterexample:
  "[] \<notin> set (keys (remotes ex_loaded))
   \<and> fst (search_flatpak lower_ascii ''game'' (Some []) ex_loaded) = Inr [0, 1, 2]
   \<and> search_flatpak lower_ascii ''game'' (Some []) init = (Inr [], init)"
  by code_simp

text \<open>
  C6 (as amended): in a state of the searcher, a search with a repository name that is
  not empty and is a key of the dict returns the matching packages of that remote, in
  the order of its list, and each carries that repository name. A search with no
  repository name, or with the empty string, returns the matching packages of every
  remote: remote after remote in the order of insertion, within a remote in the order
  of its list. No package is returned twice.
\<close>

theorem search_scope_and_order:
  assumes "well_formed s" and "search_flatpak lower keyword repo s = (r, s')"
  shows "(\<forall>n packages. repo = Some n \<and> n \<noteq> [] \<and> map_of (remotes s) n = Some packages \<longrightarrow>
            r = Inr (filter (\<lambda>a. search lower (heap s ! a) (lower keyword) \<noteq> NONE) packages)
            \<and> (\<forall>a \<in> set packages. repo_name (heap s' ! a) = n))
     \<and> (repo = None \<or> repo = Some [] \<longrightarrow>
            r = Inr (concat (map (\<lambda>(n, packages).
                  filter (\<lambda>a. search lower (heap s ! a) (lower keyword) \<noteq> NONE) packages) (remotes s))))
     \<and> (\<forall>results. r = Inr results \<longrightarrow> distinct results)"
proof -
  let ?P = "\<lambda>a. search lower (heap s ! a) (lower keyword) \<noteq> NONE"
  note post = search_flatpak_post [OF assms]
  have wf': "well_formed s'"
    using well_formed_search_flatpak [OF assms] .
  have rem: "remotes s' = remotes s"
    using post by (simp add: marks_def)
  have scoped: "r = Inr (filter ?P packages) \<and> (\<forall>a \<in> set packages. repo_name (heap s' ! a) = n)"
    if "repo = Some n" "n \<noteq> []" "map_of (remotes s) n = Some packages" for n packages
  proof -
    from that have sc: "scanned s repo = packages" by (simp add: scanned_def)
    from that(3) have "n \<in> set (keys (remotes s))"
      by (metis keys_def map_of_eq_None_iff option.distinct(1) set_map)
    with post sc that have "r = Inr (filter ?P packages)" by auto
    moreover have "\<forall>a \<in> set packages. repo_name (heap s' ! a) = n"
      using well_formed_lookup [OF wf'] that(3) rem by simp
    ultimately show ?thesis by simp
  qed
  have global: "r = Inr (concat (map (\<lambda>(n, packages). filter ?P packages) (remotes s)))"
    if "repo = None \<or> repo = Some []"
  proof -
    from that have sc: "scanned s repo = concat (map snd (remotes s))"
      by (auto simp: scanned_def)
    from that post sc have "r = Inr (filter ?P (concat (map snd (remotes s))))" by auto
    moreover have "filter ?P (concat (map snd (remotes s)))
        = concat (map (\<lambda>(n, packages). filter ?P packages) (remotes s))"
      by (simp add: filter_concat comp_def case_prod_unfold)
    ultimately show ?thesis by simp
  qed
  have "distinct (scanned s repo)"
  proof (cases "\<exists>n. repo = Some n \<and> n \<noteq> [] \<and> (\<exists>ps. map_of (remotes s) n = Some ps)")
    case True
    then obtain n ps where n: "repo = Some n" "n \<noteq> []" "map_of (remotes s) n = Some ps"
      by blast
    then have "(n, ps) \<in> set (remotes s)" by (simp add: map_of_SomeD)
    then have "ps \<in> set (map snd (remotes s))" by force
    moreover have "distinct (concat (map snd (remotes s)))"
      using assms(1) by (simp add: well_formed_def)
    ultimately have "distinct ps" by (simp add: distinct_concat_iff)
    with n show ?thesis by (simp add: scanned_def)
  next
    case False
    then show ?thesis
      using assms(1) by (auto simp: scanned_def well_formed_def split: option.splits)
  qed
  then have "distinct (filter ?P (scanned s repo))" by simp
  with post have "\<forall>results. r = Inr results \<longrightarrow> distinct results" by auto
  with scoped global show ?thesis by blast
qed

theorem search_scope_and_order_witness:
  "well_formed ex_loaded
   \<and> fst (search_flatpak lower_ascii ''GAME'' (Some ''flathub'') ex_loaded) = Inr [0, 1]
   \<and> repo_name (heap (snd (search_flatpak lower_ascii ''GAME'' (Some ''flathub'') ex_loaded)) ! 0) = ''flathub''
   \<and> repo_name (heap (snd (search_flatpak lower_ascii ''GAME'' (Some ''flathub'') ex_loaded)) ! 1) = ''flathub''
   \<and> fst (search_flatpak lower_ascii ''GAME'' None ex_loaded) = Inr [0, 1, 2]
   \<and> distinct [0, 1, 2 :: nat]"
proof -
  let ?scoped = "search_flatpak lower_ascii ''GAME'' (Some ''flathub'') ex_loaded"
  have run: "?scoped = (fst ?scoped, snd ?scoped)" by simp
  have look: "map_of (remotes ex_loaded) ''flathub'' = Some [0, 1]" by code_simp
  have 1: "fst ?scoped = Inr [0, 1]" by code_simp
  have 2: "fst (search_flatpak lower_ascii ''GAME'' None ex_loaded) = Inr [0, 1, 2]" by code_simp
  from search_scope_and_order [OF well_formed_ex_loaded run] look
  have "\<forall>a \<in> set [0, 1]. repo_name (heap (snd ?scoped) ! a) = ''flathub''"
    by blast
  with 1 2 well_formed_ex_loaded show ?thesis by simp
qed

text \<open>
  The claim as stated fails for the empty string as the repository name: the search
  returns packages of every remote, none of which carries the empty name.
\<close>

theorem search_scope_and_order_counterexample:
  "fst (search_flatpak lower_ascii ''game'' (Some []) ex_loaded) = Inr [0, 1, 2]
   \<and> repo_name (heap (snd (search_flatpak lower_ascii ''game'' (Some []) ex_loaded)) ! 0) = ''flathub''
   \<and> repo_name (heap (snd (search_flatpak lower_ascii ''game'' (Some []) ex_loaded)) ! 2) = ''flathub-beta''"
  by code_simp

subsection \<open>The match kind over a session\<close>

lemma scanned_remotes: "remotes s' = remotes s \<Longrightarrow> scanned s' repo = scanned s repo"
  by (cases repo) (simp_all add: scanned_def)

lemma run_searches_post:
  "well_formed s \<Longrightarrow> a < length (heap s) \<Longrightarrow>
     heap (run_searches lower calls s) ! a = (heap s ! a)\<lparr>match := last_match lower calls s a\<rparr>"
proof (induction calls arbitrary: s)
  case Nil
  show ?case by (simp add: last_match_def)
next
  case (Cons call calls)
  obtain keyword repo where call: "call = (keyword, repo)" by (cases call)
  obtain r s1 where run: "search_flatpak lower keyword repo s = (r, s1)"
    by (cases "search_flatpak lower keyword repo s")
  let ?f = "\<lambda>t. \<lambda>(keyword, repo) m.
             if a \<in> set (scanned t repo) \<and> search lower (heap t ! a) (lower keyword) \<noteq> NONE
             then search lower (heap t ! a) (lower keyword) else m"
  from search_flatpak_post [OF Cons.prems(1) run]
  have m: "marks lower (lower keyword) (scanned s repo) s s1" by simp
  have wf1: "well_formed s1" using well_formed_marks [OF Cons.prems(1) m] .
  have a1: "a < length (heap s1)" using m Cons.prems(2) by (simp add: marks_def)
  have rem: "remotes s1 = remotes s" using m by (simp add: marks_def)
  have obj: "heap s1 ! a = (if a \<in> set (scanned s repo)
        \<and> search lower (heap s ! a) (lower keyword) \<noteq> NONE
      then (heap s ! a)\<lparr>match := search lower (heap s ! a) (lower keyword)\<rparr> else heap s ! a)"
    using m Cons.prems(2) by (simp add: marks_def)
  have same: "search lower (heap s1 ! a) k = search lower (heap s ! a) k" for k
    using obj by (simp split: if_splits)
  have f: "?f s1 = ?f s"
    by (simp add: same scanned_remotes [OF rem] cong: if_cong)
  have start: "match (heap s1 ! a) = ?f s (keyword, repo) (match (heap s ! a))"
    using obj by simp
  have "last_match lower calls s1 a = fold (?f s) calls (?f s (keyword, repo) (match (heap s ! a)))"
    unfolding last_match_def f start ..
  then have lm: "last_match lower calls s1 a = last_match lower (call # calls) s a"
    by (simp add: last_match_def call)
  have "heap (run_searches lower (call # calls) s) ! a = heap (run_searches lower calls s1) ! a"
    using run call by simp
  also have "\<dots> = (heap s1 ! a)\<lparr>match := last_match lower calls s1 a\<rparr>"
    using Cons.IH [OF wf1 a1] .
  also have "\<dots> = (heap s ! a)\<lparr>match := last_match lower (call # calls) s a\<rparr>"
    using obj lm by simp
  finally show ?case .
qed

text \<open>
  C10: in a state of the searcher, a call of \<open>search_flatpak\<close> changes a package object
  only when it returns it, and then only its match kind, which becomes the kind of
  this search and is not NONE. An object the call does not return, because it does not
  match or is not looked at, keeps the match kind it had. So after a session of
  searches the match kind of an object is that of the latest search that returned it,
  and the one it had before the session when none did.
\<close>

theorem search_marks_only_results:
  assumes "well_formed s" and "a < length (heap s)"
  shows "(\<forall>keyword repo r s'. search_flatpak lower keyword repo s = (r, s') \<longrightarrow>
            heap s' ! a =
              (if \<exists>results. r = Inr results \<and> a \<in> set results
               then (heap s ! a)\<lparr>match := search lower (heap s ! a) (lower keyword)\<rparr>
               else heap s ! a)
            \<and> (\<forall>results. r = Inr results \<and> a \<in> set results \<longrightarrow>
                  search lower (heap s ! a) (lower keyword) \<noteq> NONE))
     \<and> heap (run_searches lower calls s) ! a = (heap s ! a)\<lparr>match := last_match lower calls s a\<rparr>"
proof -
  have one: "heap s' ! a =
              (if \<exists>results. r = Inr results \<and> a \<in> set results
               then (heap s ! a)\<lparr>match := search lower (heap s ! a) (lower keyword)\<rparr>
               else heap s ! a)
            \<and> (\<forall>results. r = Inr results \<and> a \<in> set results \<longrightarrow>
                  search lower (heap s ! a) (lower keyword) \<noteq> NONE)"
    if run: "search_flatpak lower keyword repo s = (r, s')" for keyword repo r s'
  proof -
    let ?P = "\<lambda>a. search lower (heap s ! a) (lower keyword) \<noteq> NONE"
    note post = search_flatpak_post [OF assms(1) run]
    have obj: "heap s' ! a = (if a \<in> set (scanned s repo) \<and> ?P a
      then (heap s ! a)\<lparr>match := search lower (heap s ! a) (lower keyword)\<rparr> else heap s ! a)"
      using post assms(2) by (simp add: marks_def)
    from post consider (ok) "r = Inr (filter ?P (scanned s repo))"
      | (err) n where "r = Inl (KeyError n)" "s' = s"
      by blast
    then show ?thesis
    proof cases
      case ok
      then have "(\<exists>results. r = Inr results \<and> a \<in> set results)
          = (a \<in> set (scanned s repo) \<and> ?P a)"
        by auto
      with obj ok show ?thesis by auto
    next
      case err
      then show ?thesis by simp
    qed
  qed
  with run_searches_post [OF assms] show ?thesis by blast
qed

theorem search_marks_only_results_witness:
  "well_formed ex_loaded \<and> 0 < length (heap ex_loaded)
   \<and> fst (search_flatpak lower_ascii ''chess'' None (snd (search_flatpak lower_ascii ''game'' None ex_loaded))) = Inr [1]
   \<and> last_match lower_ascii [(''game'', None), (''chess'', None)] ex_loaded 0 = NAME
   \<and> match (heap (run_searches lower_ascii [(''game'', None), (''chess'', None)] ex_loaded) ! 0) = NAME
   \<and> search lower_ascii (heap ex_loaded ! 0) (lower_ascii ''chess'') = NONE"
proof -
  have len: "0 < length (heap ex_loaded)" by code_simp
  have 1: "fst (search_flatpak lower_ascii ''chess'' None (snd (search_flatpak lower_ascii ''game'' None ex_loaded))) = Inr [1]"
    by code_simp
  have 2: "last_match lower_ascii [(''game'', None), (''chess'', None)] ex_loaded 0 = NAME"
    by code_simp
  have 3: "search lower_ascii (heap ex_loaded ! 0) (lower_ascii ''chess'') = NONE"
    by code_simp
  from search_marks_only_results [OF well_formed_ex_loaded len,
      where lower = lower_ascii and calls = "[(''game'', None), (''chess'', None)]"]
  have "heap (run_searches lower_ascii [(''game'', None), (''chess'', None)] ex_loaded) ! 0
      = (heap ex_loaded ! 0)\<lparr>match := last_match lower_ascii [(''game'', None), (''chess'', None)] ex_loaded 0\<rparr>"
    by blast
  then have "match (heap (run_searches lower_ascii [(''game'', None), (''chess'', None)] ex_loaded) ! 0) = NAME"
    using 2 by simp
  with well_formed_ex_loaded len 1 2 3 show ?thesis by simp
qed

end
